theory Spec2Isabelle
  imports Main "HOL-Library.List_Lexorder" "HOL-Library.Product_Lexorder" "HOL-Library.Multiset"
begin

section \<open>Values, strings and the standard library\<close>

text \<open>
  A Python \<open>str\<close> is a sequence of Unicode code points; indexing, slicing and \<open>len\<close>
  count code points. The byte type \<open>char\<close> cannot hold U+200B, which \<open>cleaner.py\<close> names,
  so a string is a list of code points. \<open>asc\<close> embeds an ASCII literal.
\<close>

type_synonym ustring = "nat list"

definition asc :: "string \<Rightarrow> ustring" where
  "asc s = map of_char s"

text \<open>
  The values \<open>json.load\<close> produces. A float is carried as mantissa and binary exponent
  (\<open>m * 2 ^ e\<close>); the pipeline never computes with a float of the input, it only
  stringifies it. A dict is its list of items, keys unique, looked up with \<open>map_of\<close>.
\<close>

datatype pyval =
    PNone
  | PBool bool
  | PInt int
  | PFloat int int
  | PStr ustring
  | PList "pyval list"
  | PDict "(ustring \<times> pyval) list"

datatype error = ValueError | TypeError | AttributeError | KeyError | OtherError

text \<open>
  The standard-library calls whose full behaviour lies outside the repository are taken
  as parameters:
  \<^item> \<open>charref_sub\<close>: \<open>_charref.sub(_replace_charref, s)\<close>, what \<open>html.unescape\<close> does to
    a string that contains an ampersand;
  \<^item> \<open>fromiso t\<close>: \<open>datetime.fromisoformat(t).isoformat()\<close>;
  \<^item> \<open>strp fmt t\<close>: \<open>datetime.strptime(t, fmt).strftime("%Y-%m-%dT%H:%M:%S")\<close>;
  \<^item> \<open>repr_other\<close>: \<open>str(v)\<close> for a float, a list or a dict;
  \<^item> \<open>round_pct c n\<close>: the float \<open>round(100.0 * c / n, 2)\<close> for \<open>n > 0\<close>.
\<close>

record pylib =
  charref_sub :: "ustring \<Rightarrow> ustring"
  fromiso :: "ustring \<Rightarrow> error + ustring"
  strp :: "ustring \<Rightarrow> ustring \<Rightarrow> error + ustring"
  repr_other :: "pyval \<Rightarrow> ustring"
  round_pct :: "nat \<Rightarrow> nat \<Rightarrow> int \<times> int"

definition is_str :: "pyval \<Rightarrow> bool" where
  "is_str v = (case v of PStr _ \<Rightarrow> True | _ \<Rightarrow> False)"

definition is_dict :: "pyval \<Rightarrow> bool" where
  "is_dict v = (case v of PDict _ \<Rightarrow> True | _ \<Rightarrow> False)"

text \<open>Python truthiness (\<open>not v\<close> is its negation).\<close>

definition truthy :: "pyval \<Rightarrow> bool" where
  "truthy v = (case v of
      PNone \<Rightarrow> False
    | PBool b \<Rightarrow> b
    | PInt n \<Rightarrow> n \<noteq> 0
    | PFloat m e \<Rightarrow> m \<noteq> 0
    | PStr s \<Rightarrow> s \<noteq> []
    | PList xs \<Rightarrow> xs \<noteq> []
    | PDict d \<Rightarrow> d \<noteq> [])"

text \<open>\<open>d.get(k)\<close> and \<open>d.get(k, default)\<close>.\<close>

definition dict_get_or :: "(ustring \<times> pyval) list \<Rightarrow> ustring \<Rightarrow> pyval \<Rightarrow> pyval" where
  "dict_get_or d k dflt = (case map_of d k of None \<Rightarrow> dflt | Some v \<Rightarrow> v)"

definition dict_get :: "(ustring \<times> pyval) list \<Rightarrow> ustring \<Rightarrow> pyval" where
  "dict_get d k = dict_get_or d k PNone"

text \<open>\<open>str(n)\<close> for an int: decimal digits, a minus sign for a negative number.\<close>

fun digits_of :: "nat \<Rightarrow> ustring" where
  "digits_of n = (if n < 10 then [48 + n] else digits_of (n div 10) @ [48 + n mod 10])"

definition str_int :: "int \<Rightarrow> ustring" where
  "str_int i = (if i < 0 then 45 # digits_of (nat (- i)) else digits_of (nat i))"

definition py_str :: "pylib \<Rightarrow> pyval \<Rightarrow> ustring" where
  "py_str L v = (case v of
      PNone \<Rightarrow> asc ''None''
    | PBool b \<Rightarrow> (if b then asc ''True'' else asc ''False'')
    | PInt n \<Rightarrow> str_int n
    | PStr s \<Rightarrow> s
    | _ \<Rightarrow> repr_other L v)"

text \<open>
  The characters \<open>str.strip()\<close> trims and the pattern \<open>\s\<close> matches on a \<open>str\<close>
  (\<open>str.isspace\<close>): U+0009..000D, U+001C..001F, U+0020, U+0085, U+00A0, U+1680,
  U+2000..200A, U+2028, U+2029, U+202F, U+205F, U+3000.
\<close>

definition is_space :: "nat \<Rightarrow> bool" where
  "is_space c = ((9 \<le> c \<and> c \<le> 13) \<or> (28 \<le> c \<and> c \<le> 32) \<or> c = 133 \<or> c = 160
      \<or> c = 5760 \<or> (8192 \<le> c \<and> c \<le> 8202) \<or> c = 8232 \<or> c = 8233 \<or> c = 8239
      \<or> c = 8287 \<or> c = 12288)"

definition py_strip :: "ustring \<Rightarrow> ustring" where
  "py_strip s = rev (dropWhile is_space (rev (dropWhile is_space s)))"

text \<open>\<open>s.replace(old, new)\<close> for a one-character \<open>old\<close>.\<close>

definition py_replace :: "nat \<Rightarrow> ustring \<Rightarrow> ustring \<Rightarrow> ustring" where
  "py_replace old new s = concat (map (\<lambda>c. if c = old then new else [c]) s)"

section \<open>cleaner.py\<close>

definition INVISIBLE_TO_SPACE :: "nat list" where
  "INVISIBLE_TO_SPACE = [160, 8203, 8204, 8205, 65279]"

text \<open>\<open>html.unescape\<close>: returns its argument when it holds no ampersand.\<close>

definition html_unescape :: "pylib \<Rightarrow> ustring \<Rightarrow> ustring" where
  "html_unescape L s = (if 38 \<in> set s then charref_sub L s else s)"

text \<open>
  \<open>re.sub(r"<[^>]+>", "", s)\<close>. A match starts at a less-than sign (60) that is
  followed by at least one character other than a greater-than sign (62) and, later, by
  a greater-than sign; it ends at the first one. \<open>tag_end cs\<close> is what follows the
  match when \<open>cs\<close> follows the less-than sign.
\<close>

definition tag_end :: "ustring \<Rightarrow> ustring option" where
  "tag_end cs =
     (if takeWhile (\<lambda>c. c \<noteq> 62) cs \<noteq> [] \<and> dropWhile (\<lambda>c. c \<noteq> 62) cs \<noteq> []
      then Some (tl (dropWhile (\<lambda>c. c \<noteq> 62) cs)) else None)"

function strip_tags :: "ustring \<Rightarrow> ustring" where
  "strip_tags [] = []"
| "strip_tags (c # cs) =
     (if c = 60 then
        (case tag_end cs of
           Some rest \<Rightarrow> strip_tags rest
         | None \<Rightarrow> c # strip_tags cs)
      else c # strip_tags cs)"
  by pat_completeness auto
termination
proof (relation "measure length")
  show "wf (measure length)" by simp
next
  fix c :: nat and cs rest :: ustring
  assume "tag_end cs = Some rest"
  then have "rest = tl (dropWhile (\<lambda>c. c \<noteq> 62) cs)"
    by (auto simp: tag_end_def split: if_splits)
  moreover have "length (dropWhile (\<lambda>c. c \<noteq> 62) cs) \<le> length cs"
    by (rule length_dropWhile_le)
  ultimately show "(rest, c # cs) \<in> measure length" by simp
qed simp_all

text \<open>\<open>re.sub(r"\s+", " ", s)\<close>: every maximal run of whitespace becomes one space.\<close>

function collapse_ws :: "ustring \<Rightarrow> ustring" where
  "collapse_ws [] = []"
| "collapse_ws (c # cs) =
     (if is_space c then 32 # collapse_ws (dropWhile is_space cs) else c # collapse_ws cs)"
  by pat_completeness auto
termination
proof (relation "measure length")
  show "wf (measure length)" by simp
next
  fix c :: nat and cs :: ustring
  have "length (dropWhile is_space cs) \<le> length cs"
    by (rule length_dropWhile_le)
  then show "(dropWhile is_space cs, c # cs) \<in> measure length" by simp
qed simp_all

text \<open>The two filters of step 5: control characters other than tab, LF, CR; then DEL.\<close>

definition keep_char :: "nat \<Rightarrow> bool" where
  "keep_char c = (c \<ge> 32 \<or> c = 9 \<or> c = 10 \<or> c = 13)"

definition clean_str :: "pylib \<Rightarrow> ustring \<Rightarrow> ustring" where
  "clean_str L value =
     (let s = foldl (\<lambda>s ch. py_replace ch [32] s) value INVISIBLE_TO_SPACE;
          s = html_unescape L s;
          s = strip_tags s;
          s = py_strip (collapse_ws s);
          s = filter keep_char s;
          s = filter (\<lambda>c. c \<noteq> 127) s
      in s)"

definition clean_text :: "pylib \<Rightarrow> pyval \<Rightarrow> ustring" where
  "clean_text L v =
     (if v = PNone \<or> \<not> is_str v then []
      else (case v of PStr s \<Rightarrow> clean_str L s | _ \<Rightarrow> []))"

text \<open>
  \<open>except (ValueError, TypeError): pass\<close>: the two exceptions the parser catches; any
  other exception leaves the function. \<open>try_else body rest\<close> is a \<open>try\<close> block that returns
  the value of \<open>body\<close>, followed by \<open>rest\<close>.
\<close>

definition caught :: "error \<Rightarrow> bool" where
  "caught e = (e = ValueError \<or> e = TypeError)"

definition try_else :: "error + 'a \<Rightarrow> error + 'a \<Rightarrow> error + 'a" where
  "try_else body rest =
     (case body of Inr r \<Rightarrow> Inr r | Inl e \<Rightarrow> if caught e then rest else Inl e)"

text \<open>
  The second \<open>try\<close> block of \<open>parse_date_to_iso\<close>: \<open>s[:20]\<close> is parsed and reformatted,
  then the offset is appended. 45 and 43 are minus and plus, 58 is the colon.
\<close>

definition month_name_style :: "pylib \<Rightarrow> ustring \<Rightarrow> error + ustring" where
  "month_name_style L s =
     (case strp L (asc ''%Y-%b-%dT%H:%M:%S'') (take 20 s) of
        Inl e \<Rightarrow> Inl e
      | Inr iso_s \<Rightarrow>
          Inr (if length s > 20 \<and> (s ! 20 = 45 \<or> s ! 20 = 43) \<and> length s \<ge> 26
               then iso_s @ (if length s > 25 \<and> s ! 23 = 58
                           then take 6 (drop 20 s)
                           else take 3 (drop 20 s) @ [58] @ take 2 (drop 23 s))
               else iso_s))"

text \<open>
  \<open>re.sub(r"^Updated\s+", "", s, flags=re.IGNORECASE)\<close>. None of the letters of
  \<open>updated\<close> has a case-insensitive match outside ASCII.
\<close>

definition ascii_lower :: "nat \<Rightarrow> nat" where
  "ascii_lower c = (if 65 \<le> c \<and> c \<le> 90 then c + 32 else c)"

definition strip_updated :: "ustring \<Rightarrow> ustring" where
  "strip_updated s =
     (if length s > 7 \<and> map ascii_lower (take 7 s) = asc ''updated'' \<and> is_space (s ! 7)
      then dropWhile is_space (drop 7 s) else s)"

fun try_candidates :: "pylib \<Rightarrow> ustring list \<Rightarrow> error + ustring" where
  "try_candidates L [] = Inr []"
| "try_candidates L (candidate # rest) =
     try_else (strp L (asc ''%b. %d, %Y'') candidate)
       (try_else (strp L (asc ''%B %d, %Y'') candidate)
          (try_candidates L rest))"

definition parse_date_to_iso :: "pylib \<Rightarrow> pyval \<Rightarrow> error + ustring" where
  "parse_date_to_iso L date_str =
     (if \<not> truthy date_str \<or> \<not> is_str date_str then Inr []
      else (case date_str of
          PStr raw \<Rightarrow>
            (let s = py_strip raw in
             if s = [] then Inr []
             else try_else (fromiso L (py_replace 90 (asc ''+00:00'') s))
                    (try_else (month_name_style L s)
                       (let prefix_removed = py_strip (strip_updated s)
                        in try_candidates L [prefix_removed, s])))
        | _ \<Rightarrow> Inr []))"




section \<open>validator.py\<close>

text \<open>\<open>_strip\<close> and, below, \<open>_is_present\<close>: a name cannot start with an underscore here.\<close>

definition strip_val :: "pylib \<Rightarrow> pyval \<Rightarrow> ustring" where
  "strip_val L v =
     (if v = PNone then []
      else (case v of
              PStr s \<Rightarrow> py_strip s
            | _ \<Rightarrow> py_strip (py_str L v)))"

definition startswith :: "ustring \<Rightarrow> ustring \<Rightarrow> bool" where
  "startswith s p = (take (length p) s = p)"

definition validate_record :: "pylib \<Rightarrow> pyval \<Rightarrow> bool \<times> ustring list" where
  "validate_record L record =
     (case record of
        PDict d \<Rightarrow>
          (let title = strip_val L (dict_get d (asc ''title''));
               content = strip_val L (dict_get d (asc ''content''));
               url = strip_val L (dict_get d (asc ''url''));
               errors = [];
               errors = (if title = [] then errors @ [asc ''missing_title''] else errors);
               errors = (if content = [] then errors @ [asc ''missing_content''] else errors);
               errors = (if url = [] then errors @ [asc ''missing_url''] else errors);
               errors = (if url \<noteq> [] \<and> \<not> (startswith url (asc ''http://'')
                                          \<or> startswith url (asc ''https://''))
                         then errors @ [asc ''invalid_url''] else errors);
               errors = (if content \<noteq> [] \<and> length content < 50
                         then errors @ [asc ''content_too_short''] else errors)
           in (errors = [], errors))
      | _ \<Rightarrow> (False, [asc ''invalid_record'']))"

text \<open>\<open>record.get(key)\<close> exists on a dict only: on any other value it raises.\<close>

definition is_present :: "pylib \<Rightarrow> pyval \<Rightarrow> ustring \<Rightarrow> error + bool" where
  "is_present L record key =
     (case record of
        PDict d \<Rightarrow> Inr (strip_val L (dict_get d key) \<noteq> [])
      | _ \<Rightarrow> Inl AttributeError)"

text \<open>\<open>error_counts[e] += 1\<close> on a \<open>Counter\<close>: a new key is appended, keys stay unique.\<close>

fun counter_incr :: "(ustring \<times> nat) list \<Rightarrow> ustring \<Rightarrow> (ustring \<times> nat) list" where
  "counter_incr [] e = [(e, 1)]"
| "counter_incr ((k, n) # rest) e =
     (if k = e then (k, n + 1) # rest else (k, n) # counter_incr rest e)"

record tally =
  valid_count :: nat
  invalid_count :: nat
  title_present_count :: nat
  content_present_count :: nat
  url_present_count :: nat
  date_present_count :: nat
  error_counts :: "(ustring \<times> nat) list"

record quality_report = tally +
  total_records :: nat
  title_percent :: pyval
  content_percent :: pyval
  url_percent :: pyval
  date_percent :: pyval

definition tally0 :: tally where
  "tally0 = \<lparr>valid_count = 0, invalid_count = 0, title_present_count = 0,
             content_present_count = 0, url_present_count = 0, date_present_count = 0,
             error_counts = []\<rparr>"

text \<open>The body of the loop of \<open>validate\<close>, on the counters it updates.\<close>

definition validate_step :: "pylib \<Rightarrow> tally \<Rightarrow> pyval \<Rightarrow> error + tally" where
  "validate_step L t record =
     (case is_present L record (asc ''title'') of
        Inl e \<Rightarrow> Inl e
      | Inr p1 \<Rightarrow>
         (let t = (if p1 then t\<lparr>title_present_count := title_present_count t + 1\<rparr> else t)
          in (case is_present L record (asc ''content'') of
                Inl e \<Rightarrow> Inl e
              | Inr p2 \<Rightarrow>
                 (let t = (if p2 then t\<lparr>content_present_count := content_present_count t + 1\<rparr>
                           else t)
                  in (case is_present L record (asc ''url'') of
                        Inl e \<Rightarrow> Inl e
                      | Inr p3 \<Rightarrow>
                         (let t = (if p3 then t\<lparr>url_present_count := url_present_count t + 1\<rparr>
                                   else t)
                          in (case is_present L record (asc ''published'') of
                                Inl e \<Rightarrow> Inl e
                              | Inr p4 \<Rightarrow>
                                 (let t = (if p4
                                           then t\<lparr>date_present_count := date_present_count t + 1\<rparr>
                                           else t)
                                  in (case validate_record L record of
                                        (is_valid, errors) \<Rightarrow>
                                          Inr (if is_valid
                                               then t\<lparr>valid_count := valid_count t + 1\<rparr>
                                               else t\<lparr>invalid_count := invalid_count t + 1,
                                                      error_counts :=
                                                        foldl counter_incr (error_counts t) errors\<rparr>))))))))))"

fun validate_loop :: "pylib \<Rightarrow> tally \<Rightarrow> pyval list \<Rightarrow> error + tally" where
  "validate_loop L t [] = Inr t"
| "validate_loop L t (record # rest) =
     (case validate_step L t record of
        Inl e \<Rightarrow> Inl e
      | Inr t' \<Rightarrow> validate_loop L t' rest)"

text \<open>\<open>round(100.0 * count / total, 2) if total else 0\<close>.\<close>

definition percent :: "pylib \<Rightarrow> nat \<Rightarrow> nat \<Rightarrow> pyval" where
  "percent L present_count total' =
     (if total' \<noteq> 0 then (case round_pct L present_count total' of (m, e) \<Rightarrow> PFloat m e)
      else PInt 0)"

definition validate :: "pylib \<Rightarrow> pyval \<Rightarrow> error + quality_report" where
  "validate L data =
     (case data of
        PDict d \<Rightarrow>
          (let articles = dict_get_or d (asc ''articles'') (PList []);
               articles = (case articles of PList xs \<Rightarrow> xs | _ \<Rightarrow> []);
               total' = length articles
           in case validate_loop L tally0 articles of
                Inl e \<Rightarrow> Inl e
              | Inr t \<Rightarrow>
                  Inr (tally.extend t
                        (quality_report.fields total'
                           (percent L (title_present_count t) total')
                           (percent L (content_present_count t) total')
                           (percent L (url_present_count t) total')
                           (percent L (date_present_count t) total'))))
      | _ \<Rightarrow> Inl AttributeError)"

text \<open>
  \<open>write_report\<close>: the lines of the report, and the file written. An f-string renders a
  value with \<open>str\<close>. The rows are \<open>sorted(error_counts.items(), key=lambda x: (-x[1], x[0]))\<close>:
  a stable sort by the pair of the negated count and the code, strings compared code
  point by code point.
\<close>

definition sorted_errors :: "(ustring \<times> nat) list \<Rightarrow> (ustring \<times> nat) list" where
  "sorted_errors counts = sort_key (\<lambda>x. (- int (snd x), fst x)) counts"

definition row :: "ustring \<times> nat \<Rightarrow> ustring" where
  "row x = fst x @ asc '': '' @ str_int (int (snd x))"

definition report_lines :: "pylib \<Rightarrow> quality_report \<Rightarrow> ustring list" where
  "report_lines L result =
     [asc ''======================'',
      asc ''DATA QUALITY REPORT'',
      asc ''======================'',
      asc ''Total records processed: '' @ str_int (int (total_records result)),
      asc ''Valid records: '' @ str_int (int (valid_count result)),
      asc ''Invalid records: '' @ str_int (int (invalid_count result)),
      [],
      asc ''----------------------'',
      asc ''Completeness Summary'',
      asc ''----------------------'',
      asc ''Title completeness: '' @ py_str L (title_percent result) @ asc ''%'',
      asc ''Content completeness: '' @ py_str L (content_percent result) @ asc ''%'',
      asc ''URL completeness: '' @ py_str L (url_percent result) @ asc ''%'',
      asc ''Date completeness: '' @ py_str L (date_percent result) @ asc ''%'',
      [],
      asc ''----------------------'',
      asc ''Common validation failures'',
      asc ''----------------------'']
     @ map row (sorted_errors (error_counts result))"

definition join_lines :: "ustring list \<Rightarrow> ustring" where
  "join_lines ls = concat (map (\<lambda>l. l @ [10]) ls)"

definition write_report ::
    "pylib \<Rightarrow> quality_report \<Rightarrow> ustring \<Rightarrow> (ustring \<rightharpoonup> ustring) \<Rightarrow> (ustring \<rightharpoonup> ustring)" where
  "write_report L result output_path fs = fs(output_path \<mapsto> join_lines (report_lines L result))"

section \<open>Normal forms of the cleaning steps\<close>

text \<open>
  What the steps of \<open>clean_text\<close> leave behind. \<open>tag_free s\<close>: no less-than sign of \<open>s\<close>
  starts a match of the tag pattern (each is last, or directly before a greater-than sign,
  or has no greater-than sign after it). \<open>ws_single s\<close>: every whitespace character of
  \<open>s\<close> is a space that is last or stands before a non-whitespace character.
  \<open>plain_char c\<close>: \<open>c\<close> is not the ampersand (38) and is not one of the characters that
  step 5 removes without their being whitespace (code points 0 to 8, 14 to 27, and 127).
\<close>

fun tag_free :: "ustring \<Rightarrow> bool" where
  "tag_free [] = True"
| "tag_free (c # cs) = ((c \<noteq> 60 \<or> cs = [] \<or> hd cs = 62 \<or> 62 \<notin> set cs) \<and> tag_free cs)"

fun ws_single :: "ustring \<Rightarrow> bool" where
  "ws_single [] = True"
| "ws_single (c # cs) =
     ((\<not> is_space c \<or> (c = 32 \<and> (cs = [] \<or> \<not> is_space (hd cs)))) \<and> ws_single cs)"

definition plain_char :: "nat \<Rightarrow> bool" where
  "plain_char c = (c \<noteq> 38 \<and> (is_space c \<or> (keep_char c \<and> c \<noteq> 127)))"

section \<open>Library contracts used by the theorems\<close>

text \<open>
  \<open>datetime.fromisoformat\<close> and \<open>datetime.strptime\<close> are documented to raise \<open>ValueError\<close>
  on a string they cannot parse (\<open>TypeError\<close> on a non-string). \<open>raises_only_caught\<close>
  states that contract: whatever the two parsers raise is one of the exceptions that
  \<open>parse_date_to_iso\<close> catches. \<open>all_strategies_fail L s\<close> says that each of the parse
  attempts of \<open>parse_date_to_iso\<close> on the trimmed string \<open>s\<close> raises.
\<close>

definition raises_only_caught :: "pylib \<Rightarrow> bool" where
  "raises_only_caught L =
     ((\<forall>t e. fromiso L t = Inl e \<longrightarrow> caught e) \<and> (\<forall>fmt t e. strp L fmt t = Inl e \<longrightarrow> caught e))"

definition all_strategies_fail :: "pylib \<Rightarrow> ustring \<Rightarrow> bool" where
  "all_strategies_fail L s =
     (isl (fromiso L (py_replace 90 (asc ''+00:00'') s))
      \<and> isl (strp L (asc ''%Y-%b-%dT%H:%M:%S'') (take 20 s))
      \<and> list_all (\<lambda>candidate. isl (strp L (asc ''%b. %d, %Y'') candidate)
                               \<and> isl (strp L (asc ''%B %d, %Y'') candidate))
           [py_strip (strip_updated s), s])"

section \<open>A strict library instance\<close>

text \<open>
  To run the model on concrete inputs the library parameters need values. \<open>strict_lib\<close>
  accepts only the plain ASCII shapes (two-digit fields, English month names, a few
  named character references) and checks field ranges but not the length of the month;
  whatever it does not accept raises \<open>ValueError\<close>. It renders a float as its mantissa
  and exponent and a list or a dict as a placeholder, and its percentage is the quotient
  cut to 32 binary places, without the decimal rounding. The theorems below hold for
  every library; this instance only shows that their hypotheses can be met.
\<close>

definition is_digit :: "nat \<Rightarrow> bool" where
  "is_digit c = (48 \<le> c \<and> c \<le> 57)"

definition num_of :: "ustring \<Rightarrow> nat" where
  "num_of ds = foldl (\<lambda>n c. 10 * n + (c - 48)) 0 ds"

definition two_digits :: "nat \<Rightarrow> ustring" where
  "two_digits n = [48 + n div 10, 48 + n mod 10]"

fun index_of :: "'a \<Rightarrow> 'a list \<Rightarrow> nat option" where
  "index_of x [] = None"
| "index_of x (y # ys) = (if x = y then Some 0 else map_option Suc (index_of x ys))"

definition month_abbrs :: "ustring list" where
  "month_abbrs = map asc [''jan'', ''feb'', ''mar'', ''apr'', ''may'', ''jun'',
                          ''jul'', ''aug'', ''sep'', ''oct'', ''nov'', ''dec'']"

definition month_names :: "ustring list" where
  "month_names = map asc [''january'', ''february'', ''march'', ''april'', ''may'', ''june'',
                          ''july'', ''august'', ''september'', ''october'', ''november'',
                          ''december'']"

definition of_opt :: "'a option \<Rightarrow> error + 'a" where
  "of_opt x = (case x of None \<Rightarrow> Inl ValueError | Some r \<Rightarrow> Inr r)"

definition clock_ok :: "ustring \<Rightarrow> bool" where
  "clock_ok t =
     (length t = 8 \<and> list_all is_digit (map (\<lambda>i. t ! i) [0, 1, 3, 4, 6, 7])
      \<and> t ! 2 = 58 \<and> t ! 5 = 58
      \<and> num_of (take 2 t) < 24 \<and> num_of (take 2 (drop 3 t)) < 60
      \<and> num_of (take 2 (drop 6 t)) < 60)"

definition year_ok :: "ustring \<Rightarrow> bool" where
  "year_ok y = (length y = 4 \<and> list_all is_digit y \<and> 0 < num_of y)"

definition day_ok :: "ustring \<Rightarrow> bool" where
  "day_ok d = ((length d = 1 \<or> length d = 2) \<and> list_all is_digit d
               \<and> 0 < num_of d \<and> num_of d \<le> 31)"

text \<open>\<open>YYYY-MM-DDTHH:MM:SS\<close>, optionally followed by \<open>+HH:MM\<close> or \<open>-HH:MM\<close>.\<close>

definition strict_fromiso :: "ustring \<Rightarrow> ustring option" where
  "strict_fromiso t =
     (let off = drop 19 t in
      if year_ok (take 4 t) \<and> length t \<ge> 19 \<and> t ! 4 = 45 \<and> t ! 7 = 45 \<and> t ! 10 = 84
         \<and> list_all is_digit (take 2 (drop 5 t)) \<and> 0 < num_of (take 2 (drop 5 t))
         \<and> num_of (take 2 (drop 5 t)) \<le> 12
         \<and> length (take 2 (drop 8 t)) = 2 \<and> day_ok (take 2 (drop 8 t))
         \<and> clock_ok (take 8 (drop 11 t))
         \<and> (off = [] \<or> (length off = 6 \<and> (off ! 0 = 45 \<or> off ! 0 = 43)
                          \<and> list_all is_digit (map (\<lambda>i. off ! i) [1, 2, 4, 5])
                          \<and> off ! 3 = 58))
      then Some t else None)"

text \<open>\<open>%Y-%b-%dT%H:%M:%S\<close>, twenty characters.\<close>

definition strict_month_iso :: "ustring \<Rightarrow> ustring option" where
  "strict_month_iso t =
     (if length t = 20 \<and> year_ok (take 4 t) \<and> t ! 4 = 45 \<and> t ! 8 = 45 \<and> t ! 11 = 84
         \<and> day_ok (take 2 (drop 9 t)) \<and> clock_ok (drop 12 t)
      then (case index_of (map ascii_lower (take 3 (drop 5 t))) month_abbrs of
              None \<Rightarrow> None
            | Some m \<Rightarrow> Some (take 4 t @ [45] @ two_digits (Suc m) @ drop 8 t))
      else None)"

text \<open>
  \<open>%b. %d, %Y\<close> and \<open>%B %d, %Y\<close>: a month name from \<open>names\<close>, the separator \<open>sep\<close>, the
  day, a comma and a space, the year. The time of day is midnight.
\<close>

definition strict_month_day_year :: "ustring list \<Rightarrow> ustring \<Rightarrow> ustring \<Rightarrow> ustring option" where
  "strict_month_day_year names sep t =
     (let name = takeWhile (\<lambda>c. c \<noteq> hd sep) t;
          rest = drop (length name) t;
          after = drop (length sep) rest;
          d = takeWhile is_digit after;
          tail = dropWhile is_digit after
      in if take (length sep) rest = sep \<and> day_ok d \<and> take 2 tail = [44, 32]
            \<and> year_ok (drop 2 tail)
         then (case index_of (map ascii_lower name) names of
                 None \<Rightarrow> None
               | Some m \<Rightarrow>
                   Some (drop 2 tail @ [45] @ two_digits (Suc m) @ [45]
                         @ two_digits (num_of d) @ asc ''T00:00:00''))
         else None)"

definition strict_strp :: "ustring \<Rightarrow> ustring \<Rightarrow> error + ustring" where
  "strict_strp fmt t =
     (if fmt = asc ''%Y-%b-%dT%H:%M:%S'' then of_opt (strict_month_iso t)
      else if fmt = asc ''%b. %d, %Y'' then of_opt (strict_month_day_year month_abbrs [46, 32] t)
      else if fmt = asc ''%B %d, %Y'' then of_opt (strict_month_day_year month_names [32] t)
      else Inl ValueError)"

text \<open>The references \<open>&amp;\<close>, \<open>&lt;\<close>, \<open>&gt;\<close>, \<open>&quot;\<close> and \<open>&nbsp;\<close>; 38 is the ampersand.\<close>

definition named_refs :: "(ustring \<times> nat) list" where
  "named_refs = [(asc ''amp;'', 38), (asc ''lt;'', 60), (asc ''gt;'', 62),
                 (asc ''quot;'', 34), (asc ''nbsp;'', 160)]"

fun match_ref :: "(ustring \<times> nat) list \<Rightarrow> ustring \<Rightarrow> (nat \<times> nat) option" where
  "match_ref [] cs = None"
| "match_ref ((name, c) # refs) cs =
     (if take (length name) cs = name then Some (c, length name) else match_ref refs cs)"

fun strict_charref_sub :: "nat \<Rightarrow> ustring \<Rightarrow> ustring" where
  "strict_charref_sub skip [] = []"
| "strict_charref_sub (Suc k) (c # cs) = strict_charref_sub k cs"
| "strict_charref_sub 0 (c # cs) =
     (if c = 38 then
        (case match_ref named_refs cs of
           Some (r, n) \<Rightarrow> r # strict_charref_sub n cs
         | None \<Rightarrow> c # strict_charref_sub 0 cs)
      else c # strict_charref_sub 0 cs)"

definition strict_repr :: "pyval \<Rightarrow> ustring" where
  "strict_repr v = (case v of
      PFloat m e \<Rightarrow> str_int m @ asc ''*2**'' @ str_int e
    | PList xs \<Rightarrow> asc ''[...]''
    | PDict d \<Rightarrow> asc ''{...}''
    | _ \<Rightarrow> [])"

definition strict_lib :: pylib where
  "strict_lib = \<lparr>charref_sub = strict_charref_sub 0,
                 fromiso = (\<lambda>t. of_opt (strict_fromiso t)),
                 strp = strict_strp,
                 repr_other = strict_repr,
                 round_pct = (\<lambda>c n. (int (100 * c * 2 ^ 32 div n), - 32))\<rparr>"

section \<open>The validator on a batch with a non-mapping element\<close>

text \<open>
  C1. The claim: for a batch whose \<open>articles\<close> holds an element that is not a mapping,
  \<open>validate\<close> does not raise and counts the element as \<open>invalid_record\<close>. The code does
  otherwise: the loop calls \<open>_is_present(record, "title")\<close> before \<open>validate_record\<close>, and
  \<open>record.get\<close> raises \<open>AttributeError\<close> on a string. For the batch
  \<open>{"articles": ["oops"]}\<close>, whatever the library does, \<open>validate\<close> raises.
\<close>

theorem validate_raises_on_non_mapping:
  "validate L (PDict [(asc ''articles'', PList [PStr (asc ''oops'')])]) = Inl AttributeError"
  by (simp add: validate_def dict_get_or_def validate_step_def is_present_def)

section \<open>The date parser never raises\<close>

lemma try_else_returns:
  assumes "\<And>e. body = Inl e \<Longrightarrow> caught e" and "\<exists>r. rest = Inr r"
  shows "\<exists>r. try_else body rest = Inr r"
  using assms by (cases body) (auto simp: try_else_def)

lemma try_else_failed:
  assumes "body = Inl e" and "caught e"
  shows "try_else body rest = rest"
  using assms by (simp add: try_else_def)

lemma month_name_style_Inl:
  "month_name_style L s = Inl e \<longleftrightarrow> strp L (asc ''%Y-%b-%dT%H:%M:%S'') (take 20 s) = Inl e"
  by (auto simp: month_name_style_def split: sum.splits)

lemma try_candidates_returns:
  assumes "raises_only_caught L"
  shows "\<exists>r. try_candidates L cs = Inr r"
proof (induction cs)
  case Nil
  show ?case by simp
next
  case (Cons c cs)
  have c: "\<And>fmt t e. strp L fmt t = Inl e \<Longrightarrow> caught e"
    using assms by (auto simp: raises_only_caught_def)
  have "\<exists>r. try_else (strp L (asc ''%B %d, %Y'') c) (try_candidates L cs) = Inr r"
    using c Cons.IH by (rule try_else_returns)
  with c have "\<exists>r. try_else (strp L (asc ''%b. %d, %Y'') c)
      (try_else (strp L (asc ''%B %d, %Y'') c) (try_candidates L cs)) = Inr r"
    by (rule try_else_returns)
  then show ?case by simp
qed

lemma try_candidates_failed:
  assumes "raises_only_caught L"
    and "list_all (\<lambda>c. isl (strp L (asc ''%b. %d, %Y'') c) \<and> isl (strp L (asc ''%B %d, %Y'') c)) cs"
  shows "try_candidates L cs = Inr []"
  using assms(2)
proof (induction cs)
  case Nil
  show ?case by simp
next
  case (Cons c cs)
  from Cons.prems obtain e1 e2 where
    e: "strp L (asc ''%b. %d, %Y'') c = Inl e1" "strp L (asc ''%B %d, %Y'') c = Inl e2"
    by (auto simp: isl_def)
  with assms(1) have "caught e1" "caught e2"
    by (auto simp: raises_only_caught_def)
  with e Cons show ?case by (simp add: try_else_def)
qed

lemma parse_str_returns:
  assumes "raises_only_caught L"
  shows "\<exists>r. parse_date_to_iso L v = Inr r"
proof (cases v)
  case (PStr raw)
  define rest3 where "rest3 = try_candidates L [py_strip (strip_updated (py_strip raw)), py_strip raw]"
  have c1: "\<And>t e. fromiso L t = Inl e \<Longrightarrow> caught e"
    and c2: "\<And>e. month_name_style L (py_strip raw) = Inl e \<Longrightarrow> caught e"
    using assms by (auto simp: raises_only_caught_def month_name_style_Inl)
  have 3: "\<exists>r. rest3 = Inr r"
    unfolding rest3_def using assms by (rule try_candidates_returns)
  have 2: "\<exists>r. try_else (month_name_style L (py_strip raw)) rest3 = Inr r"
    using c2 3 by (rule try_else_returns)
  have 1: "\<exists>r. try_else (fromiso L (py_replace 90 (asc ''+00:00'') (py_strip raw)))
             (try_else (month_name_style L (py_strip raw)) rest3) = Inr r"
    using c1 2 by (rule try_else_returns)
  show ?thesis
    using 1 unfolding rest3_def parse_date_to_iso_def PStr Let_def by simp
qed (simp_all add: parse_date_to_iso_def is_str_def)

lemma parse_failed:
  assumes "raises_only_caught L" and "all_strategies_fail L (py_strip raw)"
  shows "parse_date_to_iso L (PStr raw) = Inr []"
proof -
  let ?s = "py_strip raw"
  from assms(2) obtain e1 e2 where
    e: "fromiso L (py_replace 90 (asc ''+00:00'') ?s) = Inl e1"
       "strp L (asc ''%Y-%b-%dT%H:%M:%S'') (take 20 ?s) = Inl e2"
    by (auto simp: all_strategies_fail_def isl_def)
  with assms(1) have c: "caught e1" "caught e2"
    by (auto simp: raises_only_caught_def)
  have m: "month_name_style L ?s = Inl e2"
    using e(2) by (simp add: month_name_style_Inl)
  have "try_candidates L [py_strip (strip_updated ?s), ?s] = Inr []"
    using assms by (intro try_candidates_failed) (simp_all add: all_strategies_fail_def)
  then show ?thesis
    using e(1) m c by (simp add: parse_date_to_iso_def Let_def try_else_failed)
qed

lemma strict_lib_raises_only_caught: "raises_only_caught strict_lib"
  by (auto simp: raises_only_caught_def strict_lib_def strict_strp_def of_opt_def caught_def
           split: option.splits if_splits)

text \<open>
  C4. Provided the two library parsers raise nothing but what the \<open>except\<close> clauses catch,
  \<open>parse_date_to_iso\<close> returns a string for every input value, and it returns the empty
  string when the value is not a string (null included), when it is blank after trimming,
  and when every parse attempt raises.
\<close>

theorem parse_date_to_iso_never_raises:
  assumes "raises_only_caught L"
  shows "(\<exists>r. parse_date_to_iso L v = Inr r)
       \<and> ((\<not> is_str v \<or> (\<exists>raw. v = PStr raw \<and> (py_strip raw = [] \<or> all_strategies_fail L (py_strip raw))))
            \<longrightarrow> parse_date_to_iso L v = Inr [])"
proof (intro conjI impI)
  show "\<exists>r. parse_date_to_iso L v = Inr r"
    using assms by (rule parse_str_returns)
next
  assume a: "\<not> is_str v \<or> (\<exists>raw. v = PStr raw \<and> (py_strip raw = [] \<or> all_strategies_fail L (py_strip raw)))"
  show "parse_date_to_iso L v = Inr []"
  proof (cases "is_str v")
    case False
    then show ?thesis by (simp add: parse_date_to_iso_def)
  next
    case True
    with a obtain raw where v: "v = PStr raw"
      and r: "py_strip raw = [] \<or> all_strategies_fail L (py_strip raw)" by auto
    from r show ?thesis
    proof
      assume "py_strip raw = []"
      then show ?thesis by (simp add: parse_date_to_iso_def v Let_def)
    next
      assume "all_strategies_fail L (py_strip raw)"
      with assms show ?thesis unfolding v by (rule parse_failed)
    qed
  qed
qed


theorem parse_date_to_iso_never_raises_witness:
  "raises_only_caught strict_lib
   \<and> all_strategies_fail strict_lib (py_strip (asc ''not a date''))
   \<and> parse_date_to_iso strict_lib (PStr (asc ''not a date'')) = Inr []"
proof -
  have s: "py_strip (asc ''not a date'') = asc ''not a date''"
    by (simp add: py_strip_def asc_def is_space_def)
  have f: "all_strategies_fail strict_lib (asc ''not a date'')"
    by (simp add: all_strategies_fail_def strict_lib_def strict_strp_def of_opt_def
        strict_fromiso_def strict_month_iso_def strict_month_day_year_def year_ok_def
        py_replace_def py_strip_def strip_updated_def is_space_def asc_def Let_def)
  show ?thesis
    using parse_date_to_iso_never_raises [OF strict_lib_raises_only_caught,
        of "PStr (asc ''not a date'')"] strict_lib_raises_only_caught f s
    by simp
qed

section \<open>Evaluation on concrete inputs\<close>

lemmas eval_defs = asc_def py_strip_def is_space_def py_replace_def Let_def
  clean_text_def clean_str_def is_str_def html_unescape_def INVISIBLE_TO_SPACE_def
  keep_char_def tag_end_def dict_get_def dict_get_or_def py_str_def str_int_def
  strict_lib_def strict_strp_def of_opt_def strict_fromiso_def strict_month_iso_def
  strict_month_day_year_def year_ok_def day_ok_def clock_ok_def is_digit_def num_of_def
  two_digits_def month_abbrs_def month_names_def ascii_lower_def named_refs_def
  parse_date_to_iso_def truthy_def try_else_def caught_def month_name_style_def
  strip_updated_def


section \<open>The offset of the month-name style\<close>

text \<open>
  C2. The claim: an input \<open>YYYY-Mon-DDTHH:MM:SS\<close> followed by a sign and a bare \<open>HHMM\<close>
  offset comes out with the offset rewritten as \<open>HH:MM\<close>. The code appends an offset only
  when \<open>len(s) >= 26\<close>, and such an input has 25 characters: whenever the ISO attempt
  raises and \<open>strptime\<close> accepts the first 20 characters, the result is the reformatted
  date and time alone, with the five characters of the offset dropped. The \<open>else\<close> branch
  that inserts the colon is reached only when something follows the four digits.
\<close>

theorem month_style_bare_offset_dropped:
  assumes "length date = 20" and "length off = 5"
    and "py_strip (date @ off) = date @ off"
    and "fromiso L (py_replace 90 (asc ''+00:00'') (date @ off)) = Inl e" and "caught e"
    and "strp L (asc ''%Y-%b-%dT%H:%M:%S'') date = Inr iso_s"
  shows "parse_date_to_iso L (PStr (date @ off)) = Inr iso_s"
proof -
  have ne: "date \<noteq> []" using assms(1) by auto
  have "month_name_style L (date @ off) = Inr iso_s"
    using assms(1,2,6) by (simp add: month_name_style_def)
  then show ?thesis
    using assms(3,4,5) ne
    by (simp add: parse_date_to_iso_def truthy_def is_str_def Let_def try_else_def)
qed

theorem month_style_bare_offset_dropped_witness:
  "parse_date_to_iso strict_lib (PStr (asc ''2026-Feb-01T13:28:27-0500''))
     = Inr (asc ''2026-02-01T13:28:27'')"
proof -
  have "parse_date_to_iso strict_lib (PStr (asc ''2026-Feb-01T13:28:27'' @ asc ''-0500''))
     = Inr (asc ''2026-02-01T13:28:27'')"
    by (rule month_style_bare_offset_dropped [where e = ValueError])
       (simp_all add: eval_defs)
  then show ?thesis by (simp add: asc_def)
qed

section \<open>Cleaning one article and a batch\<close>







section \<open>The rules of one record\<close>

text \<open>
  C9. For every mapping record the reasons of \<open>validate_record\<close> never hold both
  \<open>missing_url\<close> and \<open>invalid_url\<close>, and never both \<open>missing_content\<close> and
  \<open>content_too_short\<close>.
\<close>

theorem validate_record_exclusive:
  "\<not> (asc ''missing_url'' \<in> set (snd (validate_record L (PDict d)))
       \<and> asc ''invalid_url'' \<in> set (snd (validate_record L (PDict d))))
   \<and> \<not> (asc ''missing_content'' \<in> set (snd (validate_record L (PDict d)))
       \<and> asc ''content_too_short'' \<in> set (snd (validate_record L (PDict d))))"
  by (simp add: validate_record_def Let_def asc_def)

section \<open>The counters of a batch\<close>

lemma validate_step_dict:
  "\<exists>t'. validate_step L t (PDict d) = Inr t'
        \<and> valid_count t' + invalid_count t' = Suc (valid_count t + invalid_count t)"
  by (simp add: validate_step_def is_present_def Let_def split: prod.splits)

lemma validate_loop_counts:
  assumes "\<forall>a\<in>set xs. is_dict a"
  shows "\<exists>t'. validate_loop L t xs = Inr t'
        \<and> valid_count t' + invalid_count t' = valid_count t + invalid_count t + length xs"
  using assms
proof (induction xs arbitrary: t)
  case Nil
  show ?case by simp
next
  case (Cons a xs)
  from Cons.prems obtain d where a: "a = PDict d"
    by (cases a) (auto simp: is_dict_def)
  obtain t1 where t1: "validate_step L t (PDict d) = Inr t1"
      "valid_count t1 + invalid_count t1 = Suc (valid_count t + invalid_count t)"
    using validate_step_dict by blast
  from Cons.IH [of t1] Cons.prems obtain t' where
    "validate_loop L t1 xs = Inr t'"
    "valid_count t' + invalid_count t' = valid_count t1 + invalid_count t1 + length xs"
    by auto
  with t1 a show ?case by simp
qed

text \<open>
  C10. For every batch whose \<open>articles\<close> is a list of mappings, \<open>validate\<close> returns a
  report in which \<open>valid_count + invalid_count\<close> is \<open>total_records\<close>, the length of the list.
\<close>

theorem validate_counts_partition:
  assumes "map_of d (asc ''articles'') = Some (PList articles)"
    and "\<forall>a\<in>set articles. is_dict a"
  shows "\<exists>r. validate L (PDict d) = Inr r
           \<and> valid_count r + invalid_count r = total_records r
           \<and> total_records r = length articles"
proof -
  obtain t where t: "validate_loop L tally0 articles = Inr t"
      "valid_count t + invalid_count t = valid_count tally0 + invalid_count tally0 + length articles"
    using validate_loop_counts [OF assms(2)] by blast
  then show ?thesis
    using assms(1)
    by (simp add: validate_def dict_get_or_def Let_def tally0_def tally.defs quality_report.defs)
qed

theorem validate_counts_partition_witness:
  "is_dict (PDict []) \<and> is_dict (PDict [(asc ''title'', PStr (asc ''A''))])
   \<and> (\<exists>r. validate strict_lib
           (PDict [(asc ''articles'',
                    PList [PDict [], PDict [(asc ''title'', PStr (asc ''A''))]])]) = Inr r
        \<and> valid_count r + invalid_count r = total_records r
        \<and> total_records r = 2)"
  using validate_counts_partition [of "[(asc ''articles'',
        PList [PDict [], PDict [(asc ''title'', PStr (asc ''A''))]])]"
      "[PDict [], PDict [(asc ''title'', PStr (asc ''A''))]]" strict_lib]
  by (simp add: is_dict_def numeral_2_eq_2)

section \<open>The rows of the report\<close>

text \<open>
  C8. In the report of \<open>write_report\<close> the lines after the eighteen fixed ones are the
  rendered items of \<open>error_counts\<close>, each once, ordered by descending count and, where counts
  are equal, by ascending reason code (strings compared code point by code point); the
  file written holds these lines.
\<close>

theorem write_report_rows_sorted:
  "drop 18 (report_lines L r) = map row (sorted_errors (error_counts r))
   \<and> mset (sorted_errors (error_counts r)) = mset (error_counts r)
   \<and> sorted_wrt (\<lambda>x y. snd x > snd y
          \<or> (snd x = snd y \<and> ((fst x, fst y) \<in> lexord {(a, b). a < b} \<or> fst x = fst y)))
        (sorted_errors (error_counts r))
   \<and> write_report L r path fs path = Some (join_lines (report_lines L r))"
proof (intro conjI)
  show "drop 18 (report_lines L r) = map row (sorted_errors (error_counts r))"
    by (simp add: report_lines_def)
  show "mset (sorted_errors (error_counts r)) = mset (error_counts r)"
    by (simp add: sorted_errors_def)
  have "sorted (map (\<lambda>x. (- int (snd x), fst x)) (sorted_errors (error_counts r)))"
    unfolding sorted_errors_def by (rule sorted_sort_key)
  then have "sorted_wrt (\<lambda>x y. (- int (snd x), fst x) \<le> (- int (snd y), fst y))
      (sorted_errors (error_counts r))"
    by (simp add: sorted_map)
  then show "sorted_wrt (\<lambda>x y. snd x > snd y
          \<or> (snd x = snd y \<and> ((fst x, fst y) \<in> lexord {(a, b). a < b} \<or> fst x = fst y)))
        (sorted_errors (error_counts r))"
    by (rule sorted_wrt_mono_rel [rotated])
       (auto simp: less_eq_prod_def list_le_def list_less_def)
  show "write_report L r path fs path = Some (join_lines (report_lines L r))"
    by (simp add: write_report_def)
qed

section \<open>Idempotence of text cleaning\<close>

lemma tag_end_None: "tag_end cs = None \<longleftrightarrow> cs = [] \<or> hd cs = 62 \<or> 62 \<notin> set cs"
  by (auto simp: tag_end_def takeWhile_eq_Nil_iff dropWhile_eq_Nil_conv)

lemma set_tl_subset: "set (tl xs) \<subseteq> set xs"
  by (cases xs) auto

lemma tag_end_set: "tag_end cs = Some rest \<Longrightarrow> set rest \<subseteq> set cs"
proof -
  assume "tag_end cs = Some rest"
  then have "rest = tl (dropWhile (\<lambda>c. c \<noteq> 62) cs)"
    by (auto simp: tag_end_def split: if_splits)
  moreover have "set (tl (dropWhile (\<lambda>c. c \<noteq> 62) cs)) \<subseteq> set (dropWhile (\<lambda>c. c \<noteq> 62) cs)"
    by (rule set_tl_subset)
  moreover have "set (dropWhile (\<lambda>c. c \<noteq> 62) cs) \<subseteq> set cs"
    by (auto dest: set_dropWhileD)
  ultimately show ?thesis by blast
qed

lemma set_strip_tags: "set (strip_tags s) \<subseteq> set s"
proof (induction s rule: strip_tags.induct)
  case 1
  show ?case by simp
next
  case (2 c cs)
  show ?case
  proof (cases "c = 60")
    case False
    with 2 show ?thesis by auto
  next
    case True
    show ?thesis
    proof (cases "tag_end cs")
      case None
      with True 2 show ?thesis by auto
    next
      case (Some rest)
      with True 2 tag_end_set [OF Some] show ?thesis by auto
    qed
  qed
qed

lemma strip_tags_gt: "strip_tags (62 # cs) = 62 # strip_tags cs"
  by simp

lemma tag_free_strip_tags: "tag_free (strip_tags s)"
proof (induction s rule: strip_tags.induct)
  case 1
  show ?case by simp
next
  case (2 c cs)
  show ?case
  proof (cases "c = 60")
    case False
    with 2 show ?thesis by simp
  next
    case True
    show ?thesis
    proof (cases "tag_end cs")
      case (Some rest)
      with True 2 show ?thesis by simp
    next
      case None
      then consider "cs = []" | cs' where "cs = 62 # cs'" | "62 \<notin> set cs"
        by (cases cs) (auto simp: tag_end_None)
      then have "strip_tags cs = [] \<or> hd (strip_tags cs) = 62 \<or> 62 \<notin> set (strip_tags cs)"
      proof cases
        case 1
        then show ?thesis by simp
      next
        case 2
        then show ?thesis by simp
      next
        case 3
        then show ?thesis using set_strip_tags [of cs] by blast
      qed
      with True None 2 show ?thesis by simp
    qed
  qed
qed

lemma strip_tags_id: "tag_free s \<Longrightarrow> strip_tags s = s"
  by (induction s) (auto simp: tag_end_None [symmetric])


lemma tag_free_append: "tag_free (xs @ ys) \<Longrightarrow> tag_free xs \<and> tag_free ys"
proof (induction xs)
  case Nil
  then show ?case by simp
next
  case (Cons x xs)
  then have "x \<noteq> 60 \<or> xs = [] \<or> hd xs = 62 \<or> 62 \<notin> set xs"
    by (cases xs) auto
  with Cons show ?case by simp
qed

lemma prefix_suffix_dropWhile:
  "s = takeWhile P s @ dropWhile P s"
  "s = rev (dropWhile P (rev s)) @ rev (takeWhile P (rev s))"
proof -
  show "s = takeWhile P s @ dropWhile P s" by simp
  have "rev (takeWhile P (rev s) @ dropWhile P (rev s)) = s"
    by (simp only: takeWhile_dropWhile_id rev_rev_ident)
  then have "rev (dropWhile P (rev s)) @ rev (takeWhile P (rev s)) = s"
    by (simp only: rev_append)
  then show "s = rev (dropWhile P (rev s)) @ rev (takeWhile P (rev s))"
    by (rule sym)
qed

lemma dropWhile_hd_id: "xs \<noteq> [] \<Longrightarrow> \<not> P (hd xs) \<Longrightarrow> dropWhile P xs = xs"
  by (cases xs) simp_all

lemma py_strip_decomp: "\<exists>pre post. s = pre @ py_strip s @ post"
proof -
  let ?a = "dropWhile is_space s"
  have "s = takeWhile is_space s @ ?a" by simp
  moreover have "?a = py_strip s @ rev (takeWhile is_space (rev ?a))"
    unfolding py_strip_def by (rule prefix_suffix_dropWhile(2))
  ultimately have "s = takeWhile is_space s @ py_strip s @ rev (takeWhile is_space (rev ?a))"
    by simp
  then show ?thesis by blast
qed

lemma tag_free_py_strip: "tag_free s \<Longrightarrow> tag_free (py_strip s)"
proof -
  assume t: "tag_free s"
  obtain pre post where "s = pre @ py_strip s @ post"
    using py_strip_decomp by blast
  with t have "tag_free (pre @ py_strip s @ post)" by simp
  then show ?thesis using tag_free_append by blast
qed

lemma set_py_strip: "set (py_strip s) \<subseteq> set s"
proof -
  obtain pre post where "s = pre @ py_strip s @ post"
    using py_strip_decomp by blast
  then have "set s = set pre \<union> set (py_strip s) \<union> set post"
    by (metis set_append Un_assoc)
  then show ?thesis by blast
qed

lemma set_collapse_ws: "set (collapse_ws s) \<subseteq> insert 32 (set s)"
proof (induction s rule: collapse_ws.induct)
  case 1
  show ?case by simp
next
  case (2 c cs)
  have "set (dropWhile is_space cs) \<subseteq> set cs"
    by (auto dest: set_dropWhileD)
  with 2 show ?case by auto
qed

lemma not_space_60: "\<not> is_space 60" and not_space_62: "\<not> is_space 62"
  by (simp_all add: is_space_def)

lemma collapse_ws_hd:
  "cs \<noteq> [] \<Longrightarrow> \<not> is_space (hd cs) \<Longrightarrow> collapse_ws cs \<noteq> [] \<and> hd (collapse_ws cs) = hd cs"
  by (cases cs) auto

lemma tag_free_collapse_ws: "tag_free s \<Longrightarrow> tag_free (collapse_ws s)"
proof (induction s rule: collapse_ws.induct)
  case 1
  show ?case by simp
next
  case (2 c cs)
  from "2.prems" have tf: "tag_free cs" by simp
  show ?case
  proof (cases "is_space c")
    case True
    have "cs = takeWhile is_space cs @ dropWhile is_space cs" by simp
    with tf have "tag_free (takeWhile is_space cs @ dropWhile is_space cs)" by simp
    then have "tag_free (dropWhile is_space cs)" using tag_free_append by blast
    with True 2 show ?thesis by simp
  next
    case False
    have ih: "tag_free (collapse_ws cs)" using False tf 2 by simp
    have "c \<noteq> 60 \<or> collapse_ws cs = [] \<or> hd (collapse_ws cs) = 62 \<or> 62 \<notin> set (collapse_ws cs)"
    proof (cases "c = 60")
      case True
      with "2.prems" have d: "cs = [] \<or> hd cs = 62 \<or> 62 \<notin> set cs" by simp
      show ?thesis
      proof (cases "cs = []")
        case True
        then show ?thesis by simp
      next
        case ne: False
        show ?thesis
        proof (cases "hd cs = 62")
          case True
          then have "hd (collapse_ws cs) = 62"
            using collapse_ws_hd [of cs] ne not_space_62 by simp
          then show ?thesis by simp
        next
          case False
          with d ne have "62 \<notin> set cs" by simp
          then have "62 \<notin> set (collapse_ws cs)"
            using set_collapse_ws [of cs] by auto
          then show ?thesis by simp
        qed
      qed
    qed simp
    with False ih show ?thesis by simp
  qed
qed

lemma ws_single_collapse_ws: "ws_single (collapse_ws s)"
proof (induction s rule: collapse_ws.induct)
  case 1
  show ?case by simp
next
  case (2 c cs)
  show ?case
  proof (cases "is_space c")
    case False
    with 2 show ?thesis by simp
  next
    case True
    let ?d = "dropWhile is_space cs"
    have "collapse_ws ?d = [] \<or> \<not> is_space (hd (collapse_ws ?d))"
    proof (cases "?d = []")
      case True
      then have "collapse_ws ?d = []" by (simp only: collapse_ws.simps)
      then show ?thesis ..
    next
      case False
      then have n: "\<not> is_space (hd ?d)" by (rule hd_dropWhile)
      from collapse_ws_hd [OF False n] have "hd (collapse_ws ?d) = hd ?d" ..
      with n show ?thesis by metis
    qed
    moreover have "is_space 32" by (simp add: is_space_def)
    ultimately show ?thesis using True 2 by simp
  qed
qed

lemma ws_single_append: "ws_single (xs @ ys) \<Longrightarrow> ws_single xs \<and> ws_single ys"
proof (induction xs)
  case Nil
  then show ?case by simp
next
  case (Cons x xs)
  then have "\<not> is_space x \<or> (x = 32 \<and> (xs = [] \<or> \<not> is_space (hd xs)))"
    by (cases xs) auto
  with Cons show ?case by simp
qed

lemma ws_single_py_strip: "ws_single s \<Longrightarrow> ws_single (py_strip s)"
proof -
  assume t: "ws_single s"
  obtain pre post where "s = pre @ py_strip s @ post"
    using py_strip_decomp by blast
  with t have "ws_single (pre @ py_strip s @ post)" by simp
  then show ?thesis using ws_single_append by blast
qed

lemma ws_single_space: "ws_single s \<Longrightarrow> c \<in> set s \<Longrightarrow> is_space c \<Longrightarrow> c = 32"
  by (induction s) auto

lemma py_strip_ends:
  "py_strip s = [] \<or> (\<not> is_space (hd (py_strip s)) \<and> \<not> is_space (last (py_strip s)))"
proof (cases "py_strip s = []")
  case False
  let ?a = "dropWhile is_space s"
  let ?b = "dropWhile is_space (rev ?a)"
  have b: "?b \<noteq> []" using False by (simp add: py_strip_def)
  then have hb: "\<not> is_space (hd ?b)" by (rule hd_dropWhile)
  have a: "?a \<noteq> []"
  proof
    assume e: "?a = []"
    show False using b unfolding e by simp
  qed
  then have ha: "\<not> is_space (hd ?a)" by (rule hd_dropWhile)
  have "rev ?a = takeWhile is_space (rev ?a) @ ?b" by simp
  then have "last (rev ?a) = last ?b" using b by (metis last_appendR)
  then have "last ?b = hd ?a" using a by (simp add: last_rev)
  moreover have "hd (py_strip s) = last ?b" using b by (simp add: py_strip_def hd_rev)
  moreover have "last (py_strip s) = hd ?b" using b by (simp add: py_strip_def last_rev)
  ultimately show ?thesis using ha hb by simp
qed simp

lemma py_strip_id:
  assumes "s = [] \<or> (\<not> is_space (hd s) \<and> \<not> is_space (last s))"
  shows "py_strip s = s"
proof (cases "s = []")
  case True
  then show ?thesis by (simp add: py_strip_def)
next
  case False
  with assms have h: "\<not> is_space (hd s)" and l: "\<not> is_space (last s)" by auto
  have 1: "dropWhile is_space s = s"
    using False h by (rule dropWhile_hd_id)
  have "hd (rev s) = last s" using False by (simp add: hd_rev)
  then have 2: "dropWhile is_space (rev s) = rev s"
    using False l by (intro dropWhile_hd_id) simp_all
  show ?thesis by (simp add: py_strip_def 1 2)
qed

lemma collapse_ws_id:
  "ws_single s \<Longrightarrow> s = [] \<or> \<not> is_space (last s) \<Longrightarrow> collapse_ws s = s"
proof (induction s)
  case Nil
  show ?case by simp
next
  case (Cons c cs)
  show ?case
  proof (cases "cs = []")
    case True
    with Cons.prems show ?thesis by simp
  next
    case False
    with Cons.prems have l: "\<not> is_space (last cs)" by simp
    from Cons.prems have w: "ws_single cs" by simp
    have ih: "collapse_ws cs = cs" using Cons.IH w l by simp
    show ?thesis
    proof (cases "is_space c")
      case False
      with ih show ?thesis by simp
    next
      case True
      with Cons.prems False have "c = 32" and "\<not> is_space (hd cs)" by auto
      then have "dropWhile is_space cs = cs" using False by (intro dropWhile_hd_id)
      with True \<open>c = 32\<close> ih show ?thesis by simp
    qed
  qed
qed


lemma py_replace_single: "py_replace a [b] s = map (\<lambda>c. if c = a then b else c) s"
  by (induction s) (simp_all add: py_replace_def)

lemma replace_invisible_map:
  "foldl (\<lambda>s ch. py_replace ch [32] s) s INVISIBLE_TO_SPACE
     = map (\<lambda>c. if c \<in> set INVISIBLE_TO_SPACE then 32 else c) s"
  by (simp add: INVISIBLE_TO_SPACE_def py_replace_single)

lemma replace_invisible_id:
  assumes "\<forall>c\<in>set t. c \<notin> set INVISIBLE_TO_SPACE"
  shows "foldl (\<lambda>s ch. py_replace ch [32] s) t INVISIBLE_TO_SPACE = t"
  unfolding replace_invisible_map using assms by (simp add: map_idI)

lemma clean_str_id:
  assumes chars: "\<forall>c\<in>set t. keep_char c \<and> c \<noteq> 127 \<and> c \<noteq> 38 \<and> c \<notin> set INVISIBLE_TO_SPACE"
    and tf: "tag_free t" and ws: "ws_single t"
    and ends: "t = [] \<or> (\<not> is_space (hd t) \<and> \<not> is_space (last t))"
  shows "clean_str L t = t"
proof -
  have 1: "foldl (\<lambda>s ch. py_replace ch [32] s) t INVISIBLE_TO_SPACE = t"
    using chars by (intro replace_invisible_id) simp
  have 2: "html_unescape L t = t"
    using chars by (auto simp: html_unescape_def)
  have 3: "strip_tags t = t"
    using tf by (rule strip_tags_id)
  have 4: "collapse_ws t = t"
    using ws ends by (intro collapse_ws_id) auto
  have 5: "py_strip t = t"
    using ends by (rule py_strip_id)
  have 6: "filter keep_char t = t" and 7: "filter (\<lambda>c. c \<noteq> 127) t = t"
    using chars by (simp_all add: filter_id_conv)
  show ?thesis
    unfolding clean_str_def Let_def by (simp only: 1 2 3 4 5 6 7)
qed

lemma clean_str_plain:
  assumes "\<forall>c\<in>set s. plain_char c"
  shows "clean_str L s =
     py_strip (collapse_ws (strip_tags (map (\<lambda>c. if c \<in> set INVISIBLE_TO_SPACE then 32 else c) s)))"
    (is "_ = ?s4")
    and "\<forall>c\<in>set (clean_str L s).
           keep_char c \<and> c \<noteq> 127 \<and> c \<noteq> 38 \<and> c \<notin> set INVISIBLE_TO_SPACE"
proof -
  let ?s1 = "map (\<lambda>c. if c \<in> set INVISIBLE_TO_SPACE then 32 else c) s"
  have p32: "plain_char 32" "32 \<notin> set INVISIBLE_TO_SPACE"
    by (simp_all add: plain_char_def is_space_def INVISIBLE_TO_SPACE_def)
  have p1: "\<forall>c\<in>set ?s1. plain_char c \<and> c \<notin> set INVISIBLE_TO_SPACE"
    using assms p32 by auto
  have amp: "38 \<notin> set ?s1"
  proof
    assume "38 \<in> set ?s1"
    with p1 have "plain_char 38" by blast
    then show False by (simp add: plain_char_def)
  qed
  have ws: "ws_single (collapse_ws (strip_tags ?s1))"
    by (rule ws_single_collapse_ws)
  have chars: "\<forall>c\<in>set ?s4.
      keep_char c \<and> c \<noteq> 127 \<and> c \<noteq> 38 \<and> c \<notin> set INVISIBLE_TO_SPACE"
  proof
    fix c
    assume c: "c \<in> set ?s4"
    from c have cc: "c \<in> set (collapse_ws (strip_tags ?s1))"
      using set_py_strip by blast
    show "keep_char c \<and> c \<noteq> 127 \<and> c \<noteq> 38 \<and> c \<notin> set INVISIBLE_TO_SPACE"
    proof (cases "is_space c")
      case True
      with ws cc have "c = 32" by (rule ws_single_space)
      then show ?thesis
        by (simp add: keep_char_def INVISIBLE_TO_SPACE_def)
    next
      case False
      then have "c \<noteq> 32" by (auto simp: is_space_def)
      with cc have "c \<in> set (strip_tags ?s1)"
        using set_collapse_ws by blast
      then have "c \<in> set ?s1"
        using set_strip_tags by blast
      with p1 have "plain_char c" "c \<notin> set INVISIBLE_TO_SPACE" by blast+
      with False show ?thesis by (simp add: plain_char_def)
    qed
  qed
  have 6: "filter keep_char ?s4 = ?s4" and 7: "filter (\<lambda>c. c \<noteq> 127) ?s4 = ?s4"
    using chars by (simp_all add: filter_id_conv)
  have h: "html_unescape L ?s1 = ?s1"
    using amp by (simp only: html_unescape_def if_False)
  show eq: "clean_str L s = ?s4"
    unfolding clean_str_def Let_def replace_invisible_map by (simp only: h 6 7)
  show "\<forall>c\<in>set (clean_str L s).
           keep_char c \<and> c \<noteq> 127 \<and> c \<noteq> 38 \<and> c \<notin> set INVISIBLE_TO_SPACE"
    unfolding eq by (rule chars)
qed

text \<open>
  C3. The claim: \<open>clean_text (clean_text s) = clean_text s\<close> for every string. It fails:
  control characters are removed after the whitespace has been collapsed, so
  \<open>"a \x01 b"\<close> becomes \<open>"a  b"\<close> with two spaces, which a second pass collapses. What
  holds: on a string with no ampersand and none of the control characters that step 5
  removes (other than whitespace), cleaning twice gives what cleaning once gives,
  whatever the entity decoder of the library does.
\<close>

theorem clean_text_idempotent_plain:
  assumes "\<forall>c\<in>set s. plain_char c"
  shows "clean_text L (PStr (clean_text L (PStr s))) = clean_text L (PStr s)"
proof -
  let ?s3 = "strip_tags (map (\<lambda>c. if c \<in> set INVISIBLE_TO_SPACE then 32 else c) s)"
  have eq: "clean_str L s = py_strip (collapse_ws ?s3)"
    using assms by (rule clean_str_plain(1))
  have "tag_free (clean_str L s)"
    unfolding eq by (intro tag_free_py_strip tag_free_collapse_ws tag_free_strip_tags)
  moreover have "ws_single (clean_str L s)"
    unfolding eq by (intro ws_single_py_strip ws_single_collapse_ws)
  moreover have "clean_str L s = [] \<or>
      (\<not> is_space (hd (clean_str L s)) \<and> \<not> is_space (last (clean_str L s)))"
    unfolding eq by (rule py_strip_ends)
  ultimately have "clean_str L (clean_str L s) = clean_str L s"
    using clean_str_plain(2) [OF assms] by (intro clean_str_id)
  then show ?thesis
    by (simp add: clean_text_def is_str_def)
qed

theorem clean_text_idempotent_plain_witness:
  "plain_char 32 \<and> plain_char 60 \<and> plain_char 98 \<and> plain_char 62 \<and> plain_char 72
   \<and> clean_text strict_lib (PStr (clean_text strict_lib (PStr [32, 60, 98, 62, 72, 32, 32, 72, 32])))
      = clean_text strict_lib (PStr [32, 60, 98, 62, 72, 32, 32, 72, 32])
   \<and> clean_text strict_lib (PStr [32, 60, 98, 62, 72, 32, 32, 72, 32]) = [72, 32, 72]"
proof -
  have p: "plain_char 32" "plain_char 60" "plain_char 98" "plain_char 62" "plain_char 72"
    by (simp_all add: plain_char_def is_space_def keep_char_def)
  then have h: "\<forall>c\<in>set [32, 60, 98, 62, 72, 32, 32, 72, 32]. plain_char c"
    by simp
  have ev: "clean_text strict_lib (PStr [32, 60, 98, 62, 72, 32, 32, 72, 32]) = [72, 32, 72]"
    by (simp add: eval_defs)
  show ?thesis
    using clean_text_idempotent_plain [OF h, of strict_lib] p ev by simp
qed

theorem clean_text_not_idempotent:
  "clean_text strict_lib (PStr (clean_text strict_lib (PStr [97, 32, 1, 32, 98])))
     \<noteq> clean_text strict_lib (PStr [97, 32, 1, 32, 98])"
  by (simp add: eval_defs)


section \<open>Further properties\<close>

text \<open>
  C7 speaks of a binary float, \<open>round(100.0 * count / total, 2)\<close>, which this development
  carries as the library value \<open>round_pct\<close> and does not compute. The branch that needs no
  float is proved here: for the batch \<open>{"articles": []}\<close> the guard \<open>if total\<close> yields the
  integer 0 for every percentage, and no division takes place.
\<close>

theorem validate_empty_batch:
  "\<exists>r. validate L (PDict [(asc ''articles'', PList [])]) = Inr r
      \<and> total_records r = 0 \<and> valid_count r = 0 \<and> invalid_count r = 0
      \<and> title_percent r = PInt 0 \<and> content_percent r = PInt 0
      \<and> url_percent r = PInt 0 \<and> date_percent r = PInt 0 \<and> error_counts r = []"
  by (simp add: validate_def dict_get_or_def percent_def tally0_def tally.defs
      quality_report.defs)

text \<open>
  The part of C2 that the code does: when the offset is written with a colon (six
  characters, a sign first and the colon fourth), the input has 26 characters and the
  offset is appended as it stands.
\<close>

theorem month_style_colon_offset_kept:
  assumes "length date = 20" and "length off = 6"
    and "off ! 0 = 45 \<or> off ! 0 = 43" and "off ! 3 = 58"
    and "py_strip (date @ off) = date @ off"
    and "fromiso L (py_replace 90 (asc ''+00:00'') (date @ off)) = Inl e" and "caught e"
    and "strp L (asc ''%Y-%b-%dT%H:%M:%S'') date = Inr iso_s"
  shows "parse_date_to_iso L (PStr (date @ off)) = Inr (iso_s @ off)"
proof -
  have ne: "date \<noteq> []" using assms(1) by auto
  have "month_name_style L (date @ off) = Inr (iso_s @ off)"
    using assms(1,2,3,4,8) by (simp add: month_name_style_def nth_append)
  then show ?thesis
    using assms(5,6,7) ne
    by (simp add: parse_date_to_iso_def truthy_def is_str_def Let_def try_else_def)
qed

theorem month_style_colon_offset_kept_witness:
  "parse_date_to_iso strict_lib (PStr (asc ''2026-Feb-01T13:28:27-05:00''))
     = Inr (asc ''2026-02-01T13:28:27-05:00'')"
proof -
  have "parse_date_to_iso strict_lib (PStr (asc ''2026-Feb-01T13:28:27'' @ asc ''-05:00''))
     = Inr (asc ''2026-02-01T13:28:27'' @ asc ''-05:00'')"
    by (rule month_style_colon_offset_kept [where e = ValueError])
       (simp_all add: eval_defs)
  then show ?thesis by (simp add: asc_def)
qed

text \<open>
  The example of the specification for the order of the rows: the counts
  \<open>{missing_url: 2, invalid_url: 2, missing_title: 5}\<close> are rendered as \<open>missing_title: 5\<close>,
  \<open>invalid_url: 2\<close>, \<open>missing_url: 2\<close>.
\<close>

theorem report_rows_example:
  "map row (sorted_errors [(asc ''missing_url'', 2), (asc ''invalid_url'', 2),
                            (asc ''missing_title'', 5)])
     = [asc ''missing_title: 5'', asc ''invalid_url: 2'', asc ''missing_url: 2'']"
  by (simp add: sorted_errors_def row_def asc_def str_int_def less_eq_prod_def
      list_le_def list_less_def)

text \<open>
  The first end-to-end scenario of the specification, after cleaning: the url \<open>"123"\<close> is
  present but has no scheme, and the content has five characters.
\<close>

theorem validate_record_scenario:
  "validate_record L
     (PDict [(asc ''url'', PStr (asc ''123'')),
             (asc ''title'', PStr (asc ''Hi there'')),
             (asc ''content'', PStr (asc ''short'')),
             (asc ''published'', PStr (asc ''2026-02-01T13:28:27-05:00''))])
   = (False, [asc ''invalid_url'', asc ''content_too_short''])"
  by (simp add: validate_record_def strip_val_def startswith_def eval_defs)

end
